theory Spec2Isabelle
  imports Main "HOL-Library.Sublist"
begin

section \<open>JavaScript values and strings\<close>

text \<open>
  A JavaScript string is modelled as a \<^typ>\<open>string\<close> holding the UTF-8 bytes of its
  text. The bytes of \<open><\<close>, \<open>>\<close>, \<open>/\<close> and \<open>,\<close> never occur inside a multi-byte
  sequence, so the tag pattern of \<open>sanitizeInput\<close> sees the same delimiters in
  both readings.

  The form parser hands every field over as an array of strings; \<open>sanitizeInput\<close>
  itself produces plain strings. \<open>String(v)\<close> of an array joins its elements with a comma.
\<close>

datatype jsval = JStr string | JArr "string list"

fun join :: "string list \<Rightarrow> string" where
  "join [] = []"
| "join [x] = x"
| "join (x # y # ys) = x @ '','' @ join (y # ys)"

fun String :: "jsval \<Rightarrow> string" where
  "String (JStr s) = s"
| "String (JArr xs) = join xs"

section \<open>The sanitizer\<close>

text \<open>
  The pattern of \<open>sanitizeInput\<close> is \<^verbatim>\<open>/<\/?[^>]+(>|$)/g\<close>.

  \<open>matchRun\<close> is the part \<^verbatim>\<open>[^>]+(>|$)\<close>: the greedy run of characters other than
  \<open>>\<close> must be non-empty; what follows the longest run is a \<open>>\<close>, which is consumed, or
  the end of the input, so the longest run always succeeds and no shorter run is tried.
  \<open>matchTag\<close> is the whole pattern tried at the start of its argument: it returns the
  input that follows the match. The optional \<^verbatim>\<open>\/\<close> is tried first with the slash
  consumed and then, by backtracking, without.
\<close>

definition matchRun :: "string \<Rightarrow> string option" where
  "matchRun s =
     (if takeWhile (\<lambda>c. c \<noteq> CHR ''>'') s = [] then None
      else Some (drop 1 (dropWhile (\<lambda>c. c \<noteq> CHR ''>'') s)))"

fun matchTag :: "string \<Rightarrow> string option" where
  "matchTag [] = None"
| "matchTag (c # cs) =
     (if c \<noteq> CHR ''<'' then None
      else case cs of
        [] \<Rightarrow> None
      | d # ds \<Rightarrow>
          (if d = CHR ''/'' then
             (case matchRun ds of Some r \<Rightarrow> Some r | None \<Rightarrow> matchRun cs)
           else matchRun cs))"

lemma matchRun_length: "matchRun s = Some r \<Longrightarrow> length r \<le> length s"
proof -
  assume "matchRun s = Some r"
  then have "r = drop 1 (dropWhile (\<lambda>c. c \<noteq> CHR ''>'') s)"
    by (simp add: matchRun_def split: if_splits)
  then have "length r \<le> length (dropWhile (\<lambda>c. c \<noteq> CHR ''>'') s)"
    by simp
  also have "\<dots> \<le> length s"
    by (rule length_dropWhile_le)
  finally show ?thesis .
qed

lemma matchTag_length: "matchTag s = Some r \<Longrightarrow> length r < length s"
proof (cases s)
  case Nil
  assume "matchTag s = Some r"
  with Nil show ?thesis by simp
next
  case (Cons c cs)
  assume m: "matchTag s = Some r"
  show ?thesis
  proof (cases cs)
    case Nil
    with Cons m show ?thesis by (simp split: if_splits)
  next
    case (Cons d ds)
    with \<open>s = c # cs\<close> m have "matchRun ds = Some r \<or> matchRun cs = Some r"
      by (auto split: if_splits option.splits)
    then have "length r \<le> length cs"
      using Cons matchRun_length [of ds r] matchRun_length [of cs r] by auto
    with \<open>s = c # cs\<close> show ?thesis by simp
  qed
qed

text \<open>
  \<open>replace(pattern, "")\<close> with the \<open>g\<close> flag scans from the left: where the pattern
  matches, the match is dropped and the scan goes on behind it; elsewhere the character
  is kept and the scan moves one step.
\<close>

function stripTags :: "string \<Rightarrow> string" where
  "stripTags [] = []"
| "stripTags (c # cs) =
     (case matchTag (c # cs) of
        Some r \<Rightarrow> stripTags r
      | None \<Rightarrow> c # stripTags cs)"
  by pat_completeness auto
termination
proof (relation "measure length")
  show "wf (measure length)" by simp
next
  fix c :: char and cs r
  assume "matchTag (c # cs) = Some r"
  then have "length r < length (c # cs)" by (rule matchTag_length)
  then show "(r, c # cs) \<in> measure length" by simp
next
  fix c :: char and cs
  show "(cs, c # cs) \<in> measure length" by simp
qed

declare matchTag.simps(2) [simp del]

text \<open>
  \<open>sanitizeInput\<close> visits the own properties of \<open>fields\<close> and stores the stripped
  string under the same key. An object is a map from property names to values.
\<close>

definition sanitizeInput :: "(string \<rightharpoonup> jsval) \<Rightarrow> (string \<rightharpoonup> string)" where
  "sanitizeInput fields =
     (\<lambda>key. case fields key of
        None \<Rightarrow> None
      | Some v \<Rightarrow> Some (stripTags (String v)))"

section \<open>Base64\<close>

text \<open>
  \<open>Buffer.from(text).toString('base64')\<close>: the UTF-8 bytes of the text, three at a
  time, as four characters of the standard alphabet, the last group padded with \<open>=\<close>.
\<close>

definition base64Alphabet :: string where
  "base64Alphabet = ''ABCDEFGHIJKLMNOPQRSTUVWXYZabcdefghijklmnopqrstuvwxyz0123456789+/''"

definition sextet :: "nat \<Rightarrow> char" where
  "sextet n = base64Alphabet ! (n mod 64)"

fun base64 :: "nat list \<Rightarrow> string" where
  "base64 [] = []"
| "base64 [a] = [sextet (a div 4), sextet (a mod 4 * 16), CHR ''='', CHR ''='']"
| "base64 [a, b] =
     [sextet (a div 4), sextet (a mod 4 * 16 + b div 16), sextet (b mod 16 * 4), CHR ''='']"
| "base64 (a # b # c # bs) =
     [sextet (a div 4), sextet (a mod 4 * 16 + b div 16),
      sextet (b mod 16 * 4 + c div 64), sextet (c mod 64)] @ base64 bs"

definition toBase64 :: "string \<Rightarrow> string" where
  "toBase64 s = base64 (map of_char s)"

text \<open>
  The decoder, to state that the encoding loses nothing: four characters give up to
  three bytes, and \<open>=\<close> pads the last group.
\<close>

definition unsextet :: "char \<Rightarrow> nat option" where
  "unsextet c =
     (let n = of_char c :: nat in
      if 65 \<le> n \<and> n \<le> 90 then Some (n - 65)
      else if 97 \<le> n \<and> n \<le> 122 then Some (n - 71)
      else if 48 \<le> n \<and> n \<le> 57 then Some (n + 4)
      else if c = CHR ''+'' then Some 62
      else if c = CHR ''/'' then Some 63
      else None)"

fun unbase64 :: "string \<Rightarrow> nat list option" where
  "unbase64 (a # b # c # d # cs) =
     (case (unsextet a, unsextet b) of
        (Some x, Some y) \<Rightarrow>
          if c = CHR ''='' \<and> d = CHR ''='' \<and> cs = [] then Some [x * 4 + y div 16]
          else (case unsextet c of
             None \<Rightarrow> None
           | Some z \<Rightarrow>
               if d = CHR ''='' \<and> cs = [] then Some [x * 4 + y div 16, y mod 16 * 16 + z div 4]
               else (case (unsextet d, unbase64 cs) of
                  (Some w, Some bs) \<Rightarrow>
                    Some ([x * 4 + y div 16, y mod 16 * 16 + z div 4, z mod 4 * 64 + w] @ bs)
                | _ \<Rightarrow> None))
      | _ \<Rightarrow> None)"
| "unbase64 [] = Some []"
| "unbase64 _ = None"

definition fromBase64 :: "string \<Rightarrow> string option" where
  "fromBase64 s = map_option (map char_of) (unbase64 s)"

section \<open>The deploy handler\<close>

subsection \<open>Data\<close>

text \<open>
  A thrown value is an \<open>Error\<close> with its \<open>message\<close>. The handler reads nothing else
  of it.
\<close>

datatype exn = Error (errorMessage: string)

type_synonym bytes = string

text \<open>An uploaded file of the form parser: \<open>arrayBuffer()\<close> gives its bytes or rejects.\<close>

record upload =
  arrayBuffer :: "exn + bytes"

text \<open>
  The request: \<open>httpMethod\<close> is \<open>request.method\<close>, and \<open>form\<close> is what
  \<open>form.parse(request)\<close> does with it: the parser rejects, or gives the fields and
  the files, each an object whose properties are arrays.
\<close>

record request =
  httpMethod :: string
  form :: "exn + (string \<rightharpoonup> jsval) \<times> (string \<rightharpoonup> upload list)"

record response =
  body :: string
  status :: nat

text \<open>
  An entry of a loaded archive: whether it is a directory, and what
  \<open>async('string')\<close> resolves to. \<open>loadedZip.forEach\<close> hands the callback each entry
  with its relative path, so a loaded archive is the list of these pairs in the order
  of \<open>forEach\<close>.
\<close>

record zipObject =
  dir :: bool
  async :: "exn + string"

type_synonym loadedZip = "(string \<times> zipObject) list"

text \<open>The object \<open>{path, content}\<close> that the archive reader builds for a file entry.\<close>

datatype extractedFile = ExtractedFile (filePath: string) (fileContent: string)

record identity =
  name :: string
  email :: string

text \<open>The argument of \<open>octokit.repos.createOrUpdateFileContents\<close>.\<close>

record publishParams =
  owner :: string
  repo :: string
  path :: string
  message :: string
  content :: string
  committer :: identity
  author :: identity

text \<open>
  The remote service is a state of any type \<open>'r\<close> and a function that, for a call,
  gives the outcome (\<open>None\<close>: resolved, \<open>Some e\<close>: rejected with \<open>e\<close>) and the next
  state. The effects of a run are recorded as a list of events, in the order the
  handler causes them.
\<close>

type_synonym 'r api = "'r \<Rightarrow> publishParams \<Rightarrow> exn option \<times> 'r"

datatype event =
  LoadAsync bytes
| Async string
| CreateOrUpdateFileContents publishParams

subsection \<open>The archive reader\<close>

text \<open>
  The callback of \<open>forEach\<close> pushes one promise for every entry that is not a directory.
\<close>

definition filePromises :: "loadedZip \<Rightarrow> (exn + extractedFile) list" where
  "filePromises loadedZip =
     map (\<lambda>(relativePath, zipEntry).
            case async zipEntry of
              Inl e \<Rightarrow> Inl e
            | Inr text \<Rightarrow> Inr (ExtractedFile relativePath text))
         (filter (\<lambda>(relativePath, zipEntry). \<not> dir zipEntry) loadedZip)"

text \<open>
  \<open>Promise.all\<close> resolves to the list of all results, or rejects as soon as one
  promise rejects; the model takes the first rejection in the order of the list.
\<close>

fun promiseAll :: "(exn + 'a) list \<Rightarrow> exn + 'a list" where
  "promiseAll [] = Inr []"
| "promiseAll (Inl e # ps) = Inl e"
| "promiseAll (Inr x # ps) =
     (case promiseAll ps of Inl e \<Rightarrow> Inl e | Inr xs \<Rightarrow> Inr (x # xs))"

subsection \<open>The publisher\<close>

definition publishParamsOf :: "string \<Rightarrow> string \<Rightarrow> extractedFile \<Rightarrow> publishParams" where
  "publishParamsOf username repoName file =
     \<lparr>owner = username,
      repo = repoName,
      path = filePath file,
      message = ''Menambahkan file '' @ filePath file @ '' via PaongDev'',
      content = toBase64 (fileContent file),
      committer = \<lparr>name = ''PaongDev'', email = ''paongdev@example.com''\<rparr>,
      author = \<lparr>name = ''PaongDev'', email = ''paongdev@example.com''\<rparr>\<rparr>"

text \<open>
  The loop \<open>for (const file of extractedFiles) await ...\<close>: a rejected call leaves
  the loop with the error; the next call starts from the state the last one left.
\<close>

fun publishLoop ::
  "'r api \<Rightarrow> string \<Rightarrow> string \<Rightarrow> extractedFile list \<Rightarrow> 'r \<Rightarrow> event list
   \<Rightarrow> exn option \<times> 'r \<times> event list" where
  "publishLoop api username repoName [] r tr = (None, r, tr)"
| "publishLoop api username repoName (file # files) r tr =
     (let params = publishParamsOf username repoName file in
      case api r params of
        (Some e, r') \<Rightarrow> (Some e, r', tr @ [CreateOrUpdateFileContents params])
      | (None, r') \<Rightarrow>
          publishLoop api username repoName files r' (tr @ [CreateOrUpdateFileContents params]))"

subsection \<open>The handler\<close>

text \<open>
  Reading index \<open>0\<close> of \<open>files['file']\<close> when that property is undefined throws a
  \<open>TypeError\<close>.
\<close>

definition undefinedIndexError :: exn where
  "undefinedIndexError = Error ''Cannot read properties of undefined (reading '0')''"

definition dataTidakLengkap :: response where
  "dataTidakLengkap = \<lparr>body = ''Data tidak lengkap.'', status = 400\<rparr>"

text \<open>
  The body of the \<open>try\<close> block. \<open>Inl e\<close> is the exception \<open>e\<close> thrown to the
  \<open>catch\<close>, \<open>Inr\<close> a returned response. The test
  \<open>!username || !repoName || !files['file'][0]\<close> is evaluated from the left: a missing
  (undefined) or empty string is falsy, and the files are looked at only when both
  names are truthy. (The parsed fields are written \<open>fields'\<close>: the plain name is
  taken by the record package.)
\<close>

definition deployTry ::
  "(bytes \<Rightarrow> exn + loadedZip) \<Rightarrow> 'r api \<Rightarrow> (string \<rightharpoonup> jsval) \<Rightarrow> (string \<rightharpoonup> upload list) \<Rightarrow> 'r
   \<Rightarrow> (exn + response) \<times> 'r \<times> event list" where
  "deployTry loadAsync api fields' files r =
     (let sanitizedFields = sanitizeInput fields' in
      case sanitizedFields ''username'' of
        None \<Rightarrow> (Inr dataTidakLengkap, r, [])
      | Some username \<Rightarrow>
      if username = [] then (Inr dataTidakLengkap, r, []) else
      case sanitizedFields ''repoName'' of
        None \<Rightarrow> (Inr dataTidakLengkap, r, [])
      | Some repoName \<Rightarrow>
      if repoName = [] then (Inr dataTidakLengkap, r, []) else
      case files ''file'' of
        None \<Rightarrow> (Inl undefinedIndexError, r, [])
      | Some [] \<Rightarrow> (Inr dataTidakLengkap, r, [])
      | Some (zipFile # _) \<Rightarrow>
      case arrayBuffer zipFile of
        Inl e \<Rightarrow> (Inl e, r, [])
      | Inr zipData \<Rightarrow>
      case loadAsync zipData of
        Inl e \<Rightarrow> (Inl e, r, [LoadAsync zipData])
      | Inr loadedZip \<Rightarrow>
      let tr = LoadAsync zipData #
               map (\<lambda>(relativePath, zipEntry). Async relativePath)
                   (filter (\<lambda>(relativePath, zipEntry). \<not> dir zipEntry) loadedZip) in
      case promiseAll (filePromises loadedZip) of
        Inl e \<Rightarrow> (Inl e, r, tr)
      | Inr extractedFiles \<Rightarrow>
      case publishLoop api username repoName extractedFiles r tr of
        (Some e, r', tr') \<Rightarrow> (Inl e, r', tr')
      | (None, r', tr') \<Rightarrow>
          (Inr \<lparr>body = ''Proyek berhasil di-deploy!'', status = 200\<rparr>, r', tr'))"

text \<open>
  The handler, \<open>handleDeployRequest\<close> of \<open>index.js\<close> (the stand-alone deploy
  endpoint has the same body): the method check, \<open>form.parse\<close> outside the \<open>try\<close> (its rejection
  rejects the handler, \<open>Inl\<close>; its result is the pair of the fields and the files),
  and the \<open>catch\<close> that turns every exception of the body into a 500 response
  carrying the message. What \<open>console.error\<close> prints is not modelled.
\<close>

definition handleDeployRequest ::
  "(bytes \<Rightarrow> exn + loadedZip) \<Rightarrow> 'r api \<Rightarrow> request \<Rightarrow> 'r
   \<Rightarrow> (exn + response) \<times> 'r \<times> event list" where
  "handleDeployRequest loadAsync api request r =
     (if httpMethod request \<noteq> ''POST'' then
        (Inr \<lparr>body = ''Metode tidak diizinkan'', status = 405\<rparr>, r, [])
      else
        case form request of
          Inl e \<Rightarrow> (Inl e, r, [])
        | Inr (fields', files) \<Rightarrow>
            (case deployTry loadAsync api fields' files r of
               (Inl e, r', tr) \<Rightarrow>
                 (Inr \<lparr>body = ''Kesalahan deployment: '' @ errorMessage e, status = 500\<rparr>, r', tr)
             | (Inr resp, r', tr) \<Rightarrow> (Inr resp, r', tr)))"

section \<open>Notions used to state the properties\<close>

subsection \<open>Tags\<close>

text \<open>
  The strings of the pattern \<^verbatim>\<open><\/?[^>]+(>|$)\<close>, read off the pattern. A slash is
  itself a character other than \<open>>\<close>, so the optional slash adds no string: a match is
  \<open><\<close>, a non-empty run without \<open>>\<close>, and then either \<open>>\<close> (a closed tag) or the end
  of the input (an open tag).
\<close>

definition closedTag :: "string \<Rightarrow> bool" where
  "closedTag t =
     (case t of
        [] \<Rightarrow> False
      | c # b \<Rightarrow>
          c = CHR ''<'' \<and> 2 \<le> length b \<and> last b = CHR ''>'' \<and> CHR ''>'' \<notin> set (butlast b))"

definition openTag :: "string \<Rightarrow> bool" where
  "openTag t =
     (case t of
        [] \<Rightarrow> False
      | c # b \<Rightarrow> c = CHR ''<'' \<and> b \<noteq> [] \<and> CHR ''>'' \<notin> set b)"

text \<open>
  \<open>removedTags segs k t s out\<close>: the input \<open>s\<close> is kept text and closed tags in
  turn (\<open>segs\<close>), then the kept text \<open>k\<close>, then nothing or an open tag \<open>t\<close> that runs
  to the end; \<open>out\<close> is the kept text alone, in the same order.
\<close>

definition removedTags ::
  "(string \<times> string) list \<Rightarrow> string \<Rightarrow> string \<Rightarrow> string \<Rightarrow> string \<Rightarrow> bool" where
  "removedTags segs k t s out \<longleftrightarrow>
     s = concat (map (\<lambda>(kept, tag). kept @ tag) segs) @ k @ t \<and>
     out = concat (map fst segs) @ k \<and>
     list_all (\<lambda>(kept, tag). closedTag tag) segs \<and>
     (t = [] \<or> openTag t)"

subsection \<open>Runs of the handler\<close>

text \<open>
  The calls a trace holds; the file entries of a loaded archive; the events of the
  extraction; the remote state after a list of calls, made in turn; the outcome of call
  \<open>i\<close> (counted from \<open>0\<close>) when the calls before it have been made.

  \<open>uploaded\<close>: the request is a POST whose two names are non-empty after sanitization
  and whose first file gives the bytes \<open>zipData\<close>. \<open>accepted\<close>: moreover these
  bytes load as the archive \<open>loadedZip\<close>. \<open>plannedCalls\<close>: the calls the handler
  goes on to make for it, none when the extraction of an entry fails.
\<close>

fun published :: "event list \<Rightarrow> publishParams list" where
  "published [] = []"
| "published (CreateOrUpdateFileContents p # es) = p # published es"
| "published (e # es) = published es"

definition fileEntries :: "loadedZip \<Rightarrow> loadedZip" where
  "fileEntries loadedZip = filter (\<lambda>(relativePath, zipEntry). \<not> dir zipEntry) loadedZip"

definition extractionTrace :: "bytes \<Rightarrow> loadedZip \<Rightarrow> event list" where
  "extractionTrace zipData loadedZip =
     LoadAsync zipData # map (\<lambda>(relativePath, zipEntry). Async relativePath) (fileEntries loadedZip)"

definition remoteAfter :: "'r api \<Rightarrow> 'r \<Rightarrow> publishParams list \<Rightarrow> 'r" where
  "remoteAfter api r ps = foldl (\<lambda>r' p. snd (api r' p)) r ps"

definition callOutcome :: "'r api \<Rightarrow> 'r \<Rightarrow> publishParams list \<Rightarrow> nat \<Rightarrow> exn option" where
  "callOutcome api r ps i = fst (api (remoteAfter api r (take i ps)) (ps ! i))"

definition uploaded :: "request \<Rightarrow> string \<Rightarrow> string \<Rightarrow> bytes \<Rightarrow> bool" where
  "uploaded request username repoName zipData \<longleftrightarrow>
     httpMethod request = ''POST'' \<and>
     (case form request of
        Inl e \<Rightarrow> False
      | Inr (fields', files) \<Rightarrow>
          sanitizeInput fields' ''username'' = Some username \<and> username \<noteq> [] \<and>
          sanitizeInput fields' ''repoName'' = Some repoName \<and> repoName \<noteq> [] \<and>
          (case files ''file'' of
             None \<Rightarrow> False
           | Some [] \<Rightarrow> False
           | Some (zipFile # _) \<Rightarrow> arrayBuffer zipFile = Inr zipData))"

definition accepted ::
  "(bytes \<Rightarrow> exn + loadedZip) \<Rightarrow> request \<Rightarrow> string \<Rightarrow> string \<Rightarrow> bytes \<Rightarrow> loadedZip \<Rightarrow> bool" where
  "accepted loadAsync request username repoName zipData loadedZip \<longleftrightarrow>
     uploaded request username repoName zipData \<and> loadAsync zipData = Inr loadedZip"

definition plannedCalls :: "string \<Rightarrow> string \<Rightarrow> loadedZip \<Rightarrow> publishParams list" where
  "plannedCalls username repoName loadedZip =
     (case promiseAll (filePromises loadedZip) of
        Inl e \<Rightarrow> []
      | Inr extractedFiles \<Rightarrow> map (publishParamsOf username repoName) extractedFiles)"

subsection \<open>The end-to-end scenario\<close>

text \<open>
  The upload of the specification's scenario: \<open>username = "alice"\<close>,
  \<open>repoName = "demo"\<close>, an archive with \<open>a.txt\<close> (\<open>hello\<close>), the directory
  \<open>dir/\<close> and \<open>dir/b.txt\<close> (\<open>world\<close>); a loader that takes any bytes for a
  given archive, and one that rejects them; an archive of directories only, and one
  whose entry has markup in its path and content; a remote service that records the
  paths written, and one that rejects \<open>dir/b.txt\<close>. A client error is a status from
  400 to 499.
\<close>

definition demoArchive :: loadedZip where
  "demoArchive =
     [(''a.txt'', \<lparr>dir = False, async = Inr ''hello''\<rparr>),
      (''dir/'', \<lparr>dir = True, async = Inr []\<rparr>),
      (''dir/b.txt'', \<lparr>dir = False, async = Inr ''world''\<rparr>)]"

definition demoRequest :: request where
  "demoRequest =
     \<lparr>httpMethod = ''POST'',
      form = Inr ([''username'' \<mapsto> JArr [''alice''], ''repoName'' \<mapsto> JArr [''demo'']],
                  [''file'' \<mapsto> [\<lparr>arrayBuffer = Inr ''PK''\<rparr>]])\<rparr>"

definition loadsAs :: "loadedZip \<Rightarrow> bytes \<Rightarrow> exn + loadedZip" where
  "loadsAs loadedZip zipData = Inr loadedZip"

definition failsWith :: "exn \<Rightarrow> bytes \<Rightarrow> exn + loadedZip" where
  "failsWith e zipData = Inl e"

definition dirsOnlyArchive :: loadedZip where
  "dirsOnlyArchive =
     [(''dir/'', \<lparr>dir = True, async = Inr []\<rparr>),
      (''dir/sub/'', \<lparr>dir = True, async = Inr []\<rparr>)]"

definition markupArchive :: loadedZip where
  "markupArchive = [(''<b>x</b>.txt'', \<lparr>dir = False, async = Inr ''<i>hi</i>''\<rparr>)]"

definition clientError :: "response \<Rightarrow> bool" where
  "clientError resp \<longleftrightarrow> 400 \<le> status resp \<and> status resp < 500"

definition recordingApi :: "string list api" where
  "recordingApi r params = (None, r @ [path params])"

definition conflictApi :: "string list api" where
  "conflictApi r params =
     (if path params = ''dir/b.txt'' then (Some (Error ''Conflict''), r)
      else (None, r @ [path params]))"

section \<open>Properties of the sanitizer\<close>

lemma matchTag_closed_form:
  "matchTag s =
     (case s of
        c # d # ds \<Rightarrow>
          if c = CHR ''<'' \<and> d \<noteq> CHR ''>''
          then Some (drop 1 (dropWhile (\<lambda>c. c \<noteq> CHR ''>'') (d # ds))) else None
      | _ \<Rightarrow> None)"
  by (auto simp: matchTag.simps matchRun_def split: list.splits option.splits if_splits)

lemma matchTag_None_iff:
  "matchTag s = None \<longleftrightarrow> \<not> (\<exists>d ds. s = CHR ''<'' # d # ds \<and> d \<noteq> CHR ''>'')"
  by (auto simp: matchTag_closed_form split: list.splits)

lemma stripTags_Nil_or_gt:
  "cs = [] \<or> hd cs = CHR ''>'' \<Longrightarrow> stripTags cs = [] \<or> hd (stripTags cs) = CHR ''>''"
  by (cases cs) (auto simp: matchTag_closed_form split: list.splits)

text \<open>The pattern matches at no position of a stripped string.\<close>

lemma stripTags_no_match: "matchTag (drop n (stripTags s)) = None"
proof (induction s arbitrary: n rule: stripTags.induct)
  case 1
  show ?case by simp
next
  case (2 c cs)
  show ?case
  proof (cases "matchTag (c # cs)")
    case (Some r)
    with "2.IH"(2) [OF Some] show ?thesis by simp
  next
    case None
    then have eq: "stripTags (c # cs) = c # stripTags cs" by simp
    show ?thesis
    proof (cases n)
      case 0
      from None have "c \<noteq> CHR ''<'' \<or> cs = [] \<or> hd cs = CHR ''>''"
        by (cases cs) (auto simp: matchTag_None_iff)
      then have "c \<noteq> CHR ''<'' \<or> stripTags cs = [] \<or> hd (stripTags cs) = CHR ''>''"
        using stripTags_Nil_or_gt [of cs] by blast
      then have "matchTag (c # stripTags cs) = None"
        by (cases "stripTags cs") (auto simp: matchTag_None_iff)
      with eq 0 show ?thesis by simp
    next
      case (Suc m)
      with eq "2.IH"(1) [OF None] show ?thesis by simp
    qed
  qed
qed

lemma stripTags_fixed:
  "(\<And>n. matchTag (drop n s) = None) \<Longrightarrow> stripTags s = s"
proof (induction s)
  case Nil
  show ?case by simp
next
  case (Cons c cs)
  from Cons.prems [of 0] have m: "matchTag (c # cs) = None" by simp
  have "\<And>n. matchTag (drop n cs) = None"
    using Cons.prems [of "Suc n" for n] by simp
  then have "stripTags cs = cs" by (rule Cons.IH)
  with m show ?case by simp
qed

lemma stripTags_idem: "stripTags (stripTags s) = stripTags s"
  by (rule stripTags_fixed) (rule stripTags_no_match)

text \<open>What a match consumes is a closed tag, or an open tag that ends the input.\<close>

lemma matchTag_shape:
  assumes "matchTag s = Some r"
  shows "(\<exists>t. s = t @ r \<and> closedTag t) \<or> (r = [] \<and> openTag s)"
proof -
  let ?P = "\<lambda>c. c \<noteq> CHR ''>''"
  from assms obtain d ds where s: "s = CHR ''<'' # d # ds" and d: "d \<noteq> CHR ''>''"
    and r: "r = drop 1 (dropWhile ?P (d # ds))"
    by (auto simp: matchTag_closed_form split: list.splits if_splits)
  let ?run = "takeWhile ?P (d # ds)"
  let ?rem = "dropWhile ?P (d # ds)"
  have run: "?run \<noteq> []" "CHR ''>'' \<notin> set ?run"
    using d by (auto dest: set_takeWhileD)
  have split: "d # ds = ?run @ ?rem" by simp
  show ?thesis
  proof (cases ?rem)
    case Nil
    with split have "d # ds = ?run" by simp
    with run(2) have "CHR ''>'' \<notin> set (d # ds)" by metis
    with s have "openTag s" by (simp add: openTag_def)
    moreover from Nil r have "r = []" by simp
    ultimately show ?thesis by blast
  next
    case (Cons g gs)
    then have "g = CHR ''>''"
      using hd_dropWhile [of ?P "d # ds"] by (metis list.distinct(1) list.sel(1))
    with Cons r have rem: "?rem = CHR ''>'' # r" by simp
    let ?t = "CHR ''<'' # ?run @ ''>''"
    have "s = ?t @ r"
      using s split rem by (metis append.assoc append_Cons append_Nil)
    moreover have "closedTag ?t"
      using run by (cases ?run) (auto simp: closedTag_def butlast_append)
    ultimately show ?thesis by blast
  qed
qed

lemma removedTags_keep:
  assumes "removedTags segs k t cs out"
  shows "\<exists>segs' k'. removedTags segs' k' t (c # cs) (c # out)"
proof (cases segs)
  case Nil
  with assms have "removedTags [] (c # k) t (c # cs) (c # out)"
    by (simp add: removedTags_def)
  then show ?thesis by blast
next
  case (Cons p ps)
  obtain kept tag where "p = (kept, tag)" by (cases p)
  with Cons assms have "removedTags ((c # kept, tag) # ps) k t (c # cs) (c # out)"
    by (simp add: removedTags_def)
  then show ?thesis by blast
qed

lemma removedTags_closed:
  "closedTag tag \<Longrightarrow> removedTags segs k t r out \<Longrightarrow>
   removedTags (([], tag) # segs) k t (tag @ r) out"
  by (simp add: removedTags_def)

lemma removedTags_open: "openTag s \<Longrightarrow> removedTags [] [] s s []"
  by (simp add: removedTags_def)

lemma stripTags_removes_tags: "\<exists>segs k t. removedTags segs k t s (stripTags s)"
proof (induction s rule: stripTags.induct)
  case 1
  have "removedTags [] [] [] [] []" by (simp add: removedTags_def)
  then show ?case by auto
next
  case (2 c cs)
  show ?case
  proof (cases "matchTag (c # cs)")
    case None
    then have eq: "stripTags (c # cs) = c # stripTags cs" by simp
    from "2.IH"(1) [OF None] obtain segs k t where
      "removedTags segs k t cs (stripTags cs)" by blast
    from removedTags_keep [OF this, of c] eq show ?thesis by metis
  next
    case (Some r)
    then have eq: "stripTags (c # cs) = stripTags r" by simp
    from "2.IH"(2) [OF Some] obtain segs k t where
      R: "removedTags segs k t r (stripTags r)" by blast
    from matchTag_shape [OF Some]
    consider tag where "c # cs = tag @ r" "closedTag tag" | "r = []" "openTag (c # cs)"
      by blast
    then show ?thesis
    proof cases
      case 1
      from removedTags_closed [OF 1(2) R] 1(1) eq show ?thesis by metis
    next
      case 2
      from removedTags_open [OF 2(2)] 2(1) eq show ?thesis by (metis stripTags.simps(1))
    qed
  qed
qed

lemma sanitizeInput_None: "fields' key = None \<Longrightarrow> sanitizeInput fields' key = None"
  by (simp add: sanitizeInput_def)

lemma sanitizeInput_Some:
  "fields' key = Some v \<Longrightarrow> sanitizeInput fields' key = Some (stripTags (String v))"
  by (simp add: sanitizeInput_def)

text \<open>
  C3. Whatever value a field holds, the sanitized value has no position at which the
  tag pattern matches, and it is the text of the field with closed tags (and one open
  tag at the end, if there is one) taken out: every other character is kept, in order.
\<close>

theorem sanitizeInput_removes_tags:
  assumes "fields' key = Some v"
  shows "\<exists>out. sanitizeInput fields' key = Some out \<and>
           (\<forall>n. matchTag (drop n out) = None) \<and>
           (\<exists>segs k t. removedTags segs k t (String v) out)"
  using assms stripTags_no_match stripTags_removes_tags
  by (simp add: sanitizeInput_def)

theorem sanitizeInput_removes_tags_witness:
  "sanitizeInput [''username'' \<mapsto> JArr [''<b>al</b>ice<'']] ''username'' = Some ''alice<'' \<and>
   (\<forall>n. matchTag (drop n ''alice<'') = None) \<and>
   (\<exists>segs k t. removedTags segs k t ''<b>al</b>ice<'' ''alice<'')"
proof -
  let ?fields = "[''username'' \<mapsto> JArr [''<b>al</b>ice<'']]"
  have h: "?fields ''username'' = Some (JArr [''<b>al</b>ice<''])" by simp
  have v: "sanitizeInput ?fields ''username'' = Some ''alice<''"
    by (simp add: sanitizeInput_def matchTag_closed_form)
  from sanitizeInput_removes_tags
         [of ?fields "''username''" "JArr [''<b>al</b>ice<'']", OF h] v
  show ?thesis by simp
qed

text \<open>
  C9. Sanitizing the sanitized fields again (its values are strings now) changes
  nothing.
\<close>

theorem sanitizeInput_idempotent:
  "sanitizeInput (map_option JStr \<circ> sanitizeInput fields') = sanitizeInput fields'"
  by (rule ext) (simp add: sanitizeInput_def stripTags_idem split: option.splits)

section \<open>Base64 decodes to what was encoded\<close>

text \<open>
  The alphabet is the capital letters, the small letters, the digits, \<open>+\<close> and \<open>/\<close>;
  so \<open>unsextet\<close> finds every sextet again, and none of them is the padding.
\<close>

lemma alphabet_ranges:
  "base64Alphabet =
     map char_of [65..<91::nat] @ map char_of [97..<123::nat] @ map char_of [48..<58::nat] @ ''+/''"
  by (simp add: base64Alphabet_def char_of_def bit_Suc_0_iff)

lemma sextet_cases:
  assumes "n < 64"
  shows "sextet n =
    (if n < 26 then char_of (65 + n)
     else if n < 52 then char_of (71 + n)
     else if n < 62 then char_of (n - 4)
     else if n = 62 then CHR ''+'' else CHR ''/'')"
proof -
  let ?up = "map char_of [65..<91::nat]" and ?lo = "map char_of [97..<123::nat]"
    and ?di = "map char_of [48..<58::nat]"
  have s: "sextet n = (?up @ ?lo @ ?di @ ''+/'') ! n"
    using assms by (simp only: sextet_def alphabet_ranges mod_less)
  consider "n < 26" | "26 \<le> n" "n < 52" | "52 \<le> n" "n < 62" | "n = 62" | "n = 63"
    using assms by linarith
  then show ?thesis
  proof cases
    case 1
    then have "(?up @ ?lo @ ?di @ ''+/'') ! n = ?up ! n"
      by (simp add: nth_append del: upt_rec_numeral)
    also have "\<dots> = char_of (65 + n)"
      using 1 by (simp del: upt_rec_numeral)
    finally show ?thesis using s 1 by simp
  next
    case 2
    then have "\<not> n < 26" "n - 26 < 26" by simp_all
    then have "(?up @ ?lo @ ?di @ ''+/'') ! n = ?lo ! (n - 26)"
      by (simp add: nth_append del: upt_rec_numeral)
    also have "\<dots> = char_of (97 + (n - 26))"
      using 2 by (simp del: upt_rec_numeral)
    also have "97 + (n - 26) = 71 + n" using 2 by simp
    finally show ?thesis using s 2 by simp
  next
    case 3
    then have "\<not> n < 26" "\<not> n - 26 < 26" "n - 26 - 26 = n - 52" "n - 52 < 10" by simp_all
    then have "(?up @ ?lo @ ?di @ ''+/'') ! n = ?di ! (n - 52)"
      by (simp add: nth_append del: upt_rec_numeral)
    also have "\<dots> = char_of (48 + (n - 52))"
      using 3 by (simp del: upt_rec_numeral)
    also have "48 + (n - 52) = n - 4" using 3 by simp
    finally show ?thesis using s 3 by simp
  next
    case 4
    then have "(?up @ ?lo @ ?di @ ''+/'') ! n = CHR ''+''"
      by (simp add: nth_append del: upt_rec_numeral)
    with s 4 show ?thesis by simp
  next
    case 5
    then have "(?up @ ?lo @ ?di @ ''+/'') ! n = CHR ''/''"
      by (simp add: nth_append del: upt_rec_numeral)
    with s 5 show ?thesis by simp
  qed
qed

lemma unsextet_sextet: "n < 64 \<Longrightarrow> unsextet (sextet n) = Some n"
  by (auto simp: sextet_cases unsextet_def Let_def)

lemma sextet_not_pad: "n < 64 \<Longrightarrow> sextet n \<noteq> CHR ''=''"
proof
  assume "n < 64" and "sextet n = CHR ''=''"
  then have "unsextet (CHR ''='') = Some n" using unsextet_sextet [of n] by simp
  then show False by (simp add: unsextet_def)
qed

lemma sextet_ranges:
  fixes a b c :: nat
  assumes "a < 256" "b < 256" "c < 256"
  shows "a div 4 < 64" "a mod 4 * 16 < 64" "a mod 4 * 16 + b div 16 < 64"
    "b mod 16 * 4 < 64" "b mod 16 * 4 + c div 64 < 64" "c mod 64 < 64"
proof -
  have x: "a mod 4 < 4" and u: "b mod 16 < 16" by simp_all
  from assms have y: "b div 16 < 16" and v: "c div 64 < 4"
    by (simp_all add: div_less_iff_less_mult)
  from assms show "a div 4 < 64" by (simp add: div_less_iff_less_mult)
  from x show "a mod 4 * 16 < 64" by linarith
  from x y show "a mod 4 * 16 + b div 16 < 64" by linarith
  from u show "b mod 16 * 4 < 64" by linarith
  from u v show "b mod 16 * 4 + c div 64 < 64" by linarith
  show "c mod 64 < 64" by simp
qed

lemma octets:
  fixes a b c :: nat
  assumes "b < 256" "c < 256"
  shows "a div 4 * 4 + (a mod 4 * 16 + b div 16) div 16 = a"
    and "a div 4 * 4 + (a mod 4 * 16) div 16 = a"
    and "(a mod 4 * 16 + b div 16) mod 16 * 16 + (b mod 16 * 4 + c div 64) div 4 = b"
    and "(a mod 4 * 16 + b div 16) mod 16 * 16 + (b mod 16 * 4) div 4 = b"
    and "(b mod 16 * 4 + c div 64) mod 4 * 64 + c mod 64 = c"
proof -
  from assms have y: "b div 16 < 16" and v: "c div 64 < 4"
    by (simp_all add: div_less_iff_less_mult)
  from y have hi: "(a mod 4 * 16 + b div 16) div 16 = a mod 4"
    and lo: "(a mod 4 * 16 + b div 16) mod 16 = b div 16"
    by simp_all
  from v have hi': "(b mod 16 * 4 + c div 64) div 4 = b mod 16"
    and lo': "(b mod 16 * 4 + c div 64) mod 4 = c div 64"
    by simp_all
  show "a div 4 * 4 + (a mod 4 * 16 + b div 16) div 16 = a"
    unfolding hi by simp
  show "a div 4 * 4 + (a mod 4 * 16) div 16 = a"
    by simp
  show "(a mod 4 * 16 + b div 16) mod 16 * 16 + (b mod 16 * 4 + c div 64) div 4 = b"
    unfolding lo hi' by simp
  show "(a mod 4 * 16 + b div 16) mod 16 * 16 + (b mod 16 * 4) div 4 = b"
    unfolding lo by simp
  show "(b mod 16 * 4 + c div 64) mod 4 * 64 + c mod 64 = c"
    unfolding lo' by simp
qed

lemma unbase64_base64:
  "\<forall>b\<in>set bs. b < 256 \<Longrightarrow> unbase64 (base64 bs) = Some bs"
proof (induction bs rule: base64.induct)
  case 1
  show ?case by simp
next
  case (2 a)
  then have a: "a < 256" by simp
  from sextet_ranges(1,2) [OF a a a] octets(2) [OF a a]
  show ?case by (simp add: unsextet_sextet)
next
  case (3 a b)
  then have ab: "a < 256" "b < 256" by simp_all
  from sextet_ranges(1,3,4) [OF ab ab(2)] octets(1,4) [OF ab(2) ab(2)]
  show ?case by (simp add: unsextet_sextet sextet_not_pad)
next
  case (4 a b c bs)
  then have abc: "a < 256" "b < 256" "c < 256" and rest: "\<forall>b\<in>set bs. b < 256" by simp_all
  from sextet_ranges(1,3,5,6) [OF abc] octets(1,3,5) [OF abc(2,3)] "4.IH" [OF rest]
  show ?case by (simp add: unsextet_sextet sextet_not_pad)
qed

lemma fromBase64_toBase64: "fromBase64 (toBase64 s) = Some s"
proof -
  have "\<forall>b\<in>set (map of_char s :: nat list). b < 256" by simp
  then have "unbase64 (base64 (map of_char s)) = Some (map of_char s)"
    by (rule unbase64_base64)
  then show ?thesis
    by (simp add: fromBase64_def toBase64_def comp_def)
qed

section \<open>Properties of the handler\<close>

lemma remoteAfter_Nil [simp]: "remoteAfter api r [] = r"
  by (simp add: remoteAfter_def)

lemma remoteAfter_Cons [simp]:
  "remoteAfter api r (p # ps) = remoteAfter api (snd (api r p)) ps"
  by (simp add: remoteAfter_def)

lemma callOutcome_0 [simp]: "callOutcome api r (p # ps) 0 = fst (api r p)"
  by (simp add: callOutcome_def)

lemma callOutcome_Suc [simp]:
  "callOutcome api r (p # ps) (Suc i) = callOutcome api (snd (api r p)) ps i"
  by (simp add: callOutcome_def)

lemma publishLoop_all_resolve:
  assumes "\<forall>i<length files. callOutcome api r (map (publishParamsOf username repoName) files) i = None"
  shows "publishLoop api username repoName files r tr =
           (None, remoteAfter api r (map (publishParamsOf username repoName) files),
            tr @ map CreateOrUpdateFileContents (map (publishParamsOf username repoName) files))"
  using assms
proof (induction files arbitrary: r tr)
  case Nil
  show ?case by simp
next
  case (Cons f fs)
  let ?p = "publishParamsOf username repoName f"
  from Cons.prems have first: "fst (api r ?p) = None" by auto
  from Cons.prems have
    "\<forall>i<length fs. callOutcome api (snd (api r ?p)) (map (publishParamsOf username repoName) fs) i = None"
    by auto
  from Cons.IH [OF this] first show ?case
    by (cases "api r ?p") simp
qed

lemma publishLoop_rejects_at:
  assumes "k < length files"
    and "\<forall>i<k. callOutcome api r (map (publishParamsOf username repoName) files) i = None"
    and "callOutcome api r (map (publishParamsOf username repoName) files) k = Some e"
  shows "publishLoop api username repoName files r tr =
           (Some e, remoteAfter api r (take (Suc k) (map (publishParamsOf username repoName) files)),
            tr @ map CreateOrUpdateFileContents
                   (take (Suc k) (map (publishParamsOf username repoName) files)))"
  using assms
proof (induction files arbitrary: r tr k)
  case Nil
  then show ?case by simp
next
  case (Cons f fs)
  let ?p = "publishParamsOf username repoName f"
  show ?case
  proof (cases k)
    case 0
    with Cons.prems(3) have "fst (api r ?p) = Some e" by simp
    with 0 show ?thesis by (cases "api r ?p") simp
  next
    case (Suc j)
    with Cons.prems have first: "fst (api r ?p) = None" by auto
    from Suc Cons.prems have "j < length fs"
      and "\<forall>i<j. callOutcome api (snd (api r ?p)) (map (publishParamsOf username repoName) fs) i = None"
      and "callOutcome api (snd (api r ?p)) (map (publishParamsOf username repoName) fs) j = Some e"
      by auto
    from Cons.IH [OF this] first Suc show ?thesis
      by (cases "api r ?p") simp
  qed
qed

text \<open>Whatever the remote service does, the loop makes the first \<open>n\<close> calls in turn.\<close>

lemma publishLoop_shape:
  "\<exists>n\<le>length files.
     snd (publishLoop api username repoName files r tr) =
       (remoteAfter api r (take n (map (publishParamsOf username repoName) files)),
        tr @ map CreateOrUpdateFileContents (take n (map (publishParamsOf username repoName) files))) \<and>
     (\<forall>i. Suc i < n \<longrightarrow> callOutcome api r (map (publishParamsOf username repoName) files) i = None) \<and>
     (case fst (publishLoop api username repoName files r tr) of
        None \<Rightarrow> n = length files
      | Some e \<Rightarrow> 0 < n \<and> callOutcome api r (map (publishParamsOf username repoName) files) (n - 1) = Some e)"
proof (induction files arbitrary: r tr)
  case Nil
  show ?case by simp
next
  case (Cons f fs)
  let ?p = "publishParamsOf username repoName f"
  let ?ps = "map (publishParamsOf username repoName) fs"
  obtain res r' where a: "api r ?p = (res, r')" by (cases "api r ?p")
  show ?case
  proof (cases res)
    case (Some e)
    with a have "publishLoop api username repoName (f # fs) r tr =
        (Some e, r', tr @ [CreateOrUpdateFileContents ?p])" by simp
    with a Some show ?thesis
      by (intro exI [of _ 1]) simp
  next
    case None
    with a have eq: "publishLoop api username repoName (f # fs) r tr =
        publishLoop api username repoName fs r' (tr @ [CreateOrUpdateFileContents ?p])" by simp
    from Cons.IH [of r' "tr @ [CreateOrUpdateFileContents ?p]"]
    obtain n where n: "n \<le> length fs"
      and s: "snd (publishLoop api username repoName fs r' (tr @ [CreateOrUpdateFileContents ?p])) =
        (remoteAfter api r' (take n ?ps),
         (tr @ [CreateOrUpdateFileContents ?p]) @ map CreateOrUpdateFileContents (take n ?ps))"
      and o: "\<forall>i. Suc i < n \<longrightarrow> callOutcome api r' ?ps i = None"
      and f: "case fst (publishLoop api username repoName fs r' (tr @ [CreateOrUpdateFileContents ?p])) of
        None \<Rightarrow> n = length fs
      | Some e \<Rightarrow> 0 < n \<and> callOutcome api r' ?ps (n - 1) = Some e"
      by blast
    let ?all = "map (publishParamsOf username repoName) (f # fs)"
    have N: "Suc n \<le> length (f # fs)" using n by simp
    have S: "snd (publishLoop api username repoName (f # fs) r tr) =
        (remoteAfter api r (take (Suc n) ?all),
         tr @ map CreateOrUpdateFileContents (take (Suc n) ?all))"
      using s eq a by simp
    have O: "\<forall>i. Suc i < Suc n \<longrightarrow> callOutcome api r ?all i = None"
    proof (intro allI impI)
      fix i assume "Suc i < Suc n"
      then show "callOutcome api r ?all i = None"
        using o a None by (cases i) auto
    qed
    have F: "case fst (publishLoop api username repoName (f # fs) r tr) of
        None \<Rightarrow> Suc n = length (f # fs)
      | Some e \<Rightarrow> 0 < Suc n \<and> callOutcome api r ?all (Suc n - 1) = Some e"
    proof (cases "fst (publishLoop api username repoName fs r' (tr @ [CreateOrUpdateFileContents ?p]))")
      case None
      with f eq show ?thesis by simp
    next
      case (Some e)
      with f have "0 < n" and "callOutcome api r' ?ps (n - 1) = Some e" by simp_all
      then have "callOutcome api r ?all n = Some e"
        using a by (cases n) simp_all
      with Some eq show ?thesis by simp
    qed
    from N S O F show ?thesis by blast
  qed
qed

lemma uploadedE:
  assumes "uploaded request username repoName zipData"
  obtains fields' files zipFile others where
    "httpMethod request = ''POST''"
    "form request = Inr (fields', files)"
    "sanitizeInput fields' ''username'' = Some username" "username \<noteq> []"
    "sanitizeInput fields' ''repoName'' = Some repoName" "repoName \<noteq> []"
    "files ''file'' = Some (zipFile # others)"
    "arrayBuffer zipFile = Inr zipData"
proof -
  from assms have m: "httpMethod request = ''POST''" by (simp add: uploaded_def)
  from assms obtain fields' files where f: "form request = Inr (fields', files)"
    by (cases "form request") (auto simp: uploaded_def)
  with assms have u: "sanitizeInput fields' ''username'' = Some username" "username \<noteq> []"
    and n: "sanitizeInput fields' ''repoName'' = Some repoName" "repoName \<noteq> []"
    and c: "case files ''file'' of None \<Rightarrow> False | Some [] \<Rightarrow> False
            | Some (zipFile # _) \<Rightarrow> arrayBuffer zipFile = Inr zipData"
    by (simp_all add: uploaded_def)
  from c obtain zipFile others where "files ''file'' = Some (zipFile # others)"
    "arrayBuffer zipFile = Inr zipData"
    by (cases "files ''file''"; cases "the (files ''file'')") simp_all
  with m f u n that show thesis by blast
qed

lemma deployTry_uploaded:
  assumes "sanitizeInput fields' ''username'' = Some username" "username \<noteq> []"
    "sanitizeInput fields' ''repoName'' = Some repoName" "repoName \<noteq> []"
    "files ''file'' = Some (zipFile # others)"
    "arrayBuffer zipFile = Inr zipData"
  shows "deployTry loadAsync api fields' files r =
    (case loadAsync zipData of
       Inl e \<Rightarrow> (Inl e, r, [LoadAsync zipData])
     | Inr loadedZip \<Rightarrow>
    (case promiseAll (filePromises loadedZip) of
       Inl e \<Rightarrow> (Inl e, r, extractionTrace zipData loadedZip)
     | Inr extractedFiles \<Rightarrow>
         (case publishLoop api username repoName extractedFiles r (extractionTrace zipData loadedZip) of
            (Some e, r', tr') \<Rightarrow> (Inl e, r', tr')
          | (None, r', tr') \<Rightarrow>
              (Inr \<lparr>body = ''Proyek berhasil di-deploy!'', status = 200\<rparr>, r', tr'))))"
  using assms
  by (cases "loadAsync zipData")
     (simp_all add: deployTry_def extractionTrace_def fileEntries_def Let_def split: sum.split)

lemma uploaded_run:
  assumes "uploaded request username repoName zipData"
  shows "handleDeployRequest loadAsync api request r =
    (case loadAsync zipData of
       Inl e \<Rightarrow>
         (Inr \<lparr>body = ''Kesalahan deployment: '' @ errorMessage e, status = 500\<rparr>, r,
          [LoadAsync zipData])
     | Inr loadedZip \<Rightarrow>
    (case promiseAll (filePromises loadedZip) of
       Inl e \<Rightarrow>
         (Inr \<lparr>body = ''Kesalahan deployment: '' @ errorMessage e, status = 500\<rparr>, r,
          extractionTrace zipData loadedZip)
     | Inr extractedFiles \<Rightarrow>
         (case publishLoop api username repoName extractedFiles r (extractionTrace zipData loadedZip) of
            (Some e, r', tr') \<Rightarrow>
              (Inr \<lparr>body = ''Kesalahan deployment: '' @ errorMessage e, status = 500\<rparr>, r', tr')
          | (None, r', tr') \<Rightarrow>
              (Inr \<lparr>body = ''Proyek berhasil di-deploy!'', status = 200\<rparr>, r', tr'))))"
proof -
  from assms obtain fields' files zipFile others where
    m: "httpMethod request = ''POST''" and f: "form request = Inr (fields', files)"
    and rest: "sanitizeInput fields' ''username'' = Some username" "username \<noteq> []"
      "sanitizeInput fields' ''repoName'' = Some repoName" "repoName \<noteq> []"
      "files ''file'' = Some (zipFile # others)"
      "arrayBuffer zipFile = Inr zipData"
    by (rule uploadedE)
  have "handleDeployRequest loadAsync api request r =
      (case deployTry loadAsync api fields' files r of
         (Inl e, r', tr) \<Rightarrow>
           (Inr \<lparr>body = ''Kesalahan deployment: '' @ errorMessage e, status = 500\<rparr>, r', tr)
       | (Inr resp, r', tr) \<Rightarrow> (Inr resp, r', tr))"
    using m f by (simp add: handleDeployRequest_def)
  then show ?thesis
    unfolding deployTry_uploaded [where fields' = fields' and files = files, OF rest]
    by (simp split: sum.splits prod.splits option.splits)
qed

lemma accepted_run:
  assumes "accepted loadAsync request username repoName zipData loadedZip"
    and "promiseAll (filePromises loadedZip) = Inr extractedFiles"
  shows "handleDeployRequest loadAsync api request r =
    (case publishLoop api username repoName extractedFiles r (extractionTrace zipData loadedZip) of
       (Some e, r', tr') \<Rightarrow>
         (Inr \<lparr>body = ''Kesalahan deployment: '' @ errorMessage e, status = 500\<rparr>, r', tr')
     | (None, r', tr') \<Rightarrow>
         (Inr \<lparr>body = ''Proyek berhasil di-deploy!'', status = 200\<rparr>, r', tr'))"
proof -
  from assms(1) have u: "uploaded request username repoName zipData"
    and l: "loadAsync zipData = Inr loadedZip"
    by (simp_all add: accepted_def)
  show ?thesis
    unfolding uploaded_run [OF u] using l assms(2) by simp
qed

lemma accepted_run_extraction_fails:
  assumes "accepted loadAsync request username repoName zipData loadedZip"
    and "promiseAll (filePromises loadedZip) = Inl e"
  shows "handleDeployRequest loadAsync api request r =
    (Inr \<lparr>body = ''Kesalahan deployment: '' @ errorMessage e, status = 500\<rparr>, r,
     extractionTrace zipData loadedZip)"
proof -
  from assms(1) have u: "uploaded request username repoName zipData"
    and l: "loadAsync zipData = Inr loadedZip"
    by (simp_all add: accepted_def)
  show ?thesis
    unfolding uploaded_run [OF u] using l assms(2) by simp
qed

lemma published_append [simp]: "published (xs @ ys) = published xs @ published ys"
  by (induction xs rule: published.induct) simp_all

lemma published_calls [simp]: "published (map CreateOrUpdateFileContents ps) = ps"
  by (induction ps) simp_all

lemma published_asyncs [simp]:
  "published (map (\<lambda>(relativePath, zipEntry). Async relativePath) zs) = []"
  by (induction zs) auto

lemma published_extractionTrace [simp]: "published (extractionTrace zipData loadedZip) = []"
  by (simp add: extractionTrace_def)

text \<open>
  C1. When call \<open>K\<close> of the \<open>N\<close> calls is rejected and the calls before it have
  resolved, the handler answers 500 with the message of that error; the calls made are
  exactly the first \<open>K\<close>, in order, and the remote state is the one they left: no
  later call, and no call that undoes an earlier one.
\<close>

theorem publish_failure_aborts_loop:
  assumes "accepted loadAsync request username repoName zipData loadedZip"
    and "promiseAll (filePromises loadedZip) = Inr extractedFiles"
    and "ps = map (publishParamsOf username repoName) extractedFiles"
    and "1 \<le> K" and "K \<le> length extractedFiles"
    and "\<forall>i<K - 1. callOutcome api r ps i = None"
    and "callOutcome api r ps (K - 1) = Some e"
  shows "handleDeployRequest loadAsync api request r =
    (Inr \<lparr>body = ''Kesalahan deployment: '' @ errorMessage e, status = 500\<rparr>,
     remoteAfter api r (take K ps),
     LoadAsync zipData #
     map (\<lambda>(relativePath, zipEntry). Async relativePath) (fileEntries loadedZip) @
     map CreateOrUpdateFileContents (take K ps))"
proof -
  from assms(4,5) have k: "K - 1 < length extractedFiles" and K: "Suc (K - 1) = K" by simp_all
  from publishLoop_rejects_at [OF k, of api r username repoName e "extractionTrace zipData loadedZip"]
    assms(3,6,7) K
  have "publishLoop api username repoName extractedFiles r (extractionTrace zipData loadedZip) =
    (Some e, remoteAfter api r (take K ps),
     extractionTrace zipData loadedZip @ map CreateOrUpdateFileContents (take K ps))"
    by simp
  then show ?thesis
    unfolding accepted_run [OF assms(1,2)] by (simp add: extractionTrace_def)
qed

lemma demo_accepted:
  "accepted (loadsAs demoArchive) demoRequest ''alice'' ''demo'' ''PK'' demoArchive"
  by (simp add: accepted_def uploaded_def demoRequest_def loadsAs_def sanitizeInput_def
      matchTag_closed_form)

lemma demo_extracted:
  "promiseAll (filePromises demoArchive) =
     Inr [ExtractedFile ''a.txt'' ''hello'', ExtractedFile ''dir/b.txt'' ''world'']"
  by (simp add: filePromises_def demoArchive_def)

lemma demo_fileEntries:
  "fileEntries demoArchive =
     [(''a.txt'', \<lparr>dir = False, async = Inr ''hello''\<rparr>),
      (''dir/b.txt'', \<lparr>dir = False, async = Inr ''world''\<rparr>)]"
  by (simp add: fileEntries_def demoArchive_def)

lemma demo_params:
  "map (publishParamsOf ''alice'' ''demo'')
     [ExtractedFile ''a.txt'' ''hello'', ExtractedFile ''dir/b.txt'' ''world''] =
   [\<lparr>owner = ''alice'', repo = ''demo'', path = ''a.txt'',
       message = ''Menambahkan file a.txt via PaongDev'',
       content = ''aGVsbG8='',
       committer = \<lparr>name = ''PaongDev'', email = ''paongdev@example.com''\<rparr>,
       author = \<lparr>name = ''PaongDev'', email = ''paongdev@example.com''\<rparr>\<rparr>,
    \<lparr>owner = ''alice'', repo = ''demo'', path = ''dir/b.txt'',
       message = ''Menambahkan file dir/b.txt via PaongDev'',
       content = ''d29ybGQ='',
       committer = \<lparr>name = ''PaongDev'', email = ''paongdev@example.com''\<rparr>,
       author = \<lparr>name = ''PaongDev'', email = ''paongdev@example.com''\<rparr>\<rparr>]"
  by (simp add: publishParamsOf_def toBase64_def sextet_def base64Alphabet_def)

theorem publish_failure_aborts_loop_witness:
  "handleDeployRequest (loadsAs demoArchive) conflictApi demoRequest [] =
    (Inr \<lparr>body = ''Kesalahan deployment: Conflict'', status = 500\<rparr>,
     [''a.txt''],
     [LoadAsync ''PK'', Async ''a.txt'', Async ''dir/b.txt'',
      CreateOrUpdateFileContents
       \<lparr>owner = ''alice'', repo = ''demo'', path = ''a.txt'',
          message = ''Menambahkan file a.txt via PaongDev'',
          content = ''aGVsbG8='',
          committer = \<lparr>name = ''PaongDev'', email = ''paongdev@example.com''\<rparr>,
          author = \<lparr>name = ''PaongDev'', email = ''paongdev@example.com''\<rparr>\<rparr>,
      CreateOrUpdateFileContents
       \<lparr>owner = ''alice'', repo = ''demo'', path = ''dir/b.txt'',
          message = ''Menambahkan file dir/b.txt via PaongDev'',
          content = ''d29ybGQ='',
          committer = \<lparr>name = ''PaongDev'', email = ''paongdev@example.com''\<rparr>,
          author = \<lparr>name = ''PaongDev'', email = ''paongdev@example.com''\<rparr>\<rparr>])"
proof -
  let ?ps = "map (publishParamsOf ''alice'' ''demo'')
     [ExtractedFile ''a.txt'' ''hello'', ExtractedFile ''dir/b.txt'' ''world'']"
  have k: "(1::nat) \<le> 2" "2 \<le> length [ExtractedFile ''a.txt'' ''hello'', ExtractedFile ''dir/b.txt'' ''world'']"
    by simp_all
  have ok: "\<forall>i<2 - 1. callOutcome conflictApi [] ?ps i = None"
    unfolding demo_params by (simp add: conflictApi_def)
  have bad: "callOutcome conflictApi [] ?ps (2 - 1) = Some (Error ''Conflict'')"
    unfolding demo_params by (simp add: conflictApi_def)
  from publish_failure_aborts_loop [OF demo_accepted demo_extracted refl k ok bad]
  show ?thesis
    unfolding demo_params demo_fileEntries by (simp add: conflictApi_def)
qed

lemma promiseAll_map_Inr: "promiseAll (map Inr xs) = Inr xs"
  by (induction xs) simp_all

lemma promiseAll_InrD: "promiseAll ps = Inr xs \<Longrightarrow> ps = map Inr xs"
proof (induction ps arbitrary: xs)
  case Nil
  then show ?case by simp
next
  case (Cons p ps)
  show ?case
  proof (cases p)
    case (Inl e)
    with Cons.prems show ?thesis by simp
  next
    case (Inr x)
    with Cons.prems obtain ys where ys: "promiseAll ps = Inr ys" and xs: "xs = x # ys"
      by (cases "promiseAll ps") auto
    from Cons.IH [OF ys] Inr xs show ?thesis by simp
  qed
qed

lemma filePromises_fileEntries:
  "filePromises loadedZip =
     map (\<lambda>(relativePath, zipEntry).
            case async zipEntry of
              Inl e \<Rightarrow> Inl e
            | Inr text \<Rightarrow> Inr (ExtractedFile relativePath text))
         (fileEntries loadedZip)"
  by (simp add: filePromises_def fileEntries_def)

lemma extracted_entries_aux:
  "map Inr fs =
     map (\<lambda>(relativePath, zipEntry).
            case async zipEntry of
              Inl e \<Rightarrow> Inl e
            | Inr text \<Rightarrow> Inr (ExtractedFile relativePath text)) zs
   \<Longrightarrow> list_all2 (\<lambda>f (relativePath, zipEntry).
            filePath f = relativePath \<and> async zipEntry = Inr (fileContent f)) fs zs"
proof (induction fs arbitrary: zs)
  case Nil
  then show ?case by simp
next
  case (Cons f fs)
  then obtain z zs' where zs: "zs = z # zs'" by (cases zs) auto
  obtain relativePath zipEntry where z: "z = (relativePath, zipEntry)" by (cases z)
  from Cons.prems zs z have h: "Inr f =
      (case async zipEntry of Inl e \<Rightarrow> Inl e | Inr text \<Rightarrow> Inr (ExtractedFile relativePath text))"
    and t: "map Inr fs =
     map (\<lambda>(relativePath, zipEntry).
            case async zipEntry of
              Inl e \<Rightarrow> Inl e
            | Inr text \<Rightarrow> Inr (ExtractedFile relativePath text)) zs'"
    by simp_all
  from h have "filePath f = relativePath \<and> async zipEntry = Inr (fileContent f)"
    by (cases "async zipEntry") auto
  with Cons.IH [OF t] zs z show ?case by simp
qed

lemma extracted_entries:
  assumes "promiseAll (filePromises loadedZip) = Inr extractedFiles"
  shows "list_all2 (\<lambda>f (relativePath, zipEntry).
            filePath f = relativePath \<and> async zipEntry = Inr (fileContent f))
          extractedFiles (fileEntries loadedZip)"
proof -
  from promiseAll_InrD [OF assms] have "map Inr extractedFiles = filePromises loadedZip" by simp
  then show ?thesis
    unfolding filePromises_fileEntries by (rule extracted_entries_aux)
qed

lemma valid_archive_extracts_aux:
  "list_all (\<lambda>(relativePath, zipEntry). \<not> isl (async zipEntry)) zs \<Longrightarrow>
   \<exists>fs. map (\<lambda>(relativePath, zipEntry).
            case async zipEntry of
              Inl e \<Rightarrow> Inl e
            | Inr text \<Rightarrow> Inr (ExtractedFile relativePath text)) zs = map Inr fs"
proof (induction zs)
  case Nil
  show ?case by simp
next
  case (Cons z zs)
  let ?g = "\<lambda>(relativePath, zipEntry).
            case async zipEntry of
              Inl e \<Rightarrow> Inl e
            | Inr text \<Rightarrow> Inr (ExtractedFile relativePath text)"
  obtain relativePath zipEntry where z: "z = (relativePath, zipEntry)" by (cases z)
  with Cons.prems obtain str where "async zipEntry = Inr str"
    by (cases "async zipEntry") auto
  with z have "?g z = Inr (ExtractedFile relativePath str)" by simp
  moreover from Cons obtain fs where "map ?g zs = map Inr fs"
    by auto
  ultimately have "map ?g (z # zs) = map Inr (ExtractedFile relativePath str # fs)"
    by simp
  then show ?case by blast
qed

lemma valid_archive_extracts:
  assumes "list_all (\<lambda>(relativePath, zipEntry). dir zipEntry \<or> \<not> isl (async zipEntry)) loadedZip"
  shows "\<exists>extractedFiles. promiseAll (filePromises loadedZip) = Inr extractedFiles"
proof -
  from assms have "list_all (\<lambda>(relativePath, zipEntry). \<not> isl (async zipEntry)) (fileEntries loadedZip)"
    by (induction loadedZip) (auto simp: fileEntries_def)
  from valid_archive_extracts_aux [OF this] obtain fs where
    "filePromises loadedZip = map Inr fs"
    unfolding filePromises_fileEntries by blast
  then have "promiseAll (filePromises loadedZip) = Inr fs"
    by (simp add: promiseAll_map_Inr)
  then show ?thesis by blast
qed

lemma accepted_run_shape:
  assumes "accepted loadAsync request username repoName zipData loadedZip"
  shows "\<exists>n\<le>length (plannedCalls username repoName loadedZip).
     snd (handleDeployRequest loadAsync api request r) =
       (remoteAfter api r (take n (plannedCalls username repoName loadedZip)),
        extractionTrace zipData loadedZip @
        map CreateOrUpdateFileContents (take n (plannedCalls username repoName loadedZip))) \<and>
     (\<forall>i. Suc i < n \<longrightarrow> callOutcome api r (plannedCalls username repoName loadedZip) i = None)"
proof (cases "promiseAll (filePromises loadedZip)")
  case (Inl e)
  then have "plannedCalls username repoName loadedZip = []" by (simp add: plannedCalls_def)
  with accepted_run_extraction_fails [OF assms Inl, of api r] show ?thesis by simp
next
  case (Inr extractedFiles)
  let ?tr = "extractionTrace zipData loadedZip"
  from Inr have p: "plannedCalls username repoName loadedZip =
      map (publishParamsOf username repoName) extractedFiles" by (simp add: plannedCalls_def)
  have s: "snd (handleDeployRequest loadAsync api request r) =
      snd (publishLoop api username repoName extractedFiles r ?tr)"
    unfolding accepted_run [OF assms Inr]
    by (cases "publishLoop api username repoName extractedFiles r ?tr")
       (simp split: option.splits)
  from publishLoop_shape [of extractedFiles api username repoName r ?tr]
  show ?thesis unfolding s p by auto
qed

lemma path_publishParamsOf [simp]: "path (publishParamsOf username repoName f) = filePath f"
  by (simp add: publishParamsOf_def)

lemma accepted_published:
  assumes "accepted loadAsync request username repoName zipData loadedZip"
  shows "\<exists>n. published (snd (snd (handleDeployRequest loadAsync api request r))) =
           take n (plannedCalls username repoName loadedZip)"
proof -
  from accepted_run_shape [OF assms, of api r] obtain n where
    "snd (handleDeployRequest loadAsync api request r) =
       (remoteAfter api r (take n (plannedCalls username repoName loadedZip)),
        extractionTrace zipData loadedZip @
        map CreateOrUpdateFileContents (take n (plannedCalls username repoName loadedZip)))"
    by blast
  then have "published (snd (snd (handleDeployRequest loadAsync api request r))) =
      take n (plannedCalls username repoName loadedZip)"
    by simp
  then show ?thesis by blast
qed

text \<open>
  C2. For an archive with \<open>N\<close> file entries and \<open>M\<close> directory entries whose file
  entries all decompress, the archive reader resolves to exactly \<open>N\<close> extracted files,
  one for each file entry in the order of the archive, with the entry's relative path
  and text; and the paths the handler publishes are taken, in order, from the paths of
  the file entries: a directory entry gives no extracted file and no call.
\<close>

theorem archive_reader_file_entries:
  assumes "accepted loadAsync request username repoName zipData loadedZip"
    and "list_all (\<lambda>(relativePath, zipEntry). dir zipEntry \<or> \<not> isl (async zipEntry)) loadedZip"
    and "length (filter (\<lambda>(relativePath, zipEntry). \<not> dir zipEntry) loadedZip) = N"
    and "length (filter (\<lambda>(relativePath, zipEntry). dir zipEntry) loadedZip) = M"
  shows "\<exists>extractedFiles.
           promiseAll (filePromises loadedZip) = Inr extractedFiles \<and>
           length extractedFiles = N \<and>
           length loadedZip = N + M \<and>
           list_all2 (\<lambda>f (relativePath, zipEntry).
               filePath f = relativePath \<and> async zipEntry = Inr (fileContent f))
             extractedFiles
             (filter (\<lambda>(relativePath, zipEntry). \<not> dir zipEntry) loadedZip) \<and>
           prefix (map path (published (snd (snd (handleDeployRequest loadAsync api request r)))))
             (map fst (filter (\<lambda>(relativePath, zipEntry). \<not> dir zipEntry) loadedZip))"
proof -
  from valid_archive_extracts [OF assms(2)] obtain extractedFiles where
    ex: "promiseAll (filePromises loadedZip) = Inr extractedFiles" by blast
  from extracted_entries [OF ex] have rel:
    "list_all2 (\<lambda>f (relativePath, zipEntry).
         filePath f = relativePath \<and> async zipEntry = Inr (fileContent f))
       extractedFiles (filter (\<lambda>(relativePath, zipEntry). \<not> dir zipEntry) loadedZip)"
    by (simp add: fileEntries_def)
  from rel assms(3) have len: "length extractedFiles = N"
    by (simp add: list_all2_lengthD)
  have "length loadedZip =
      length (filter (\<lambda>(relativePath, zipEntry). \<not> dir zipEntry) loadedZip) +
      length (filter (\<lambda>(relativePath, zipEntry). dir zipEntry) loadedZip)"
    by (induction loadedZip) auto
  with assms(3,4) have total: "length loadedZip = N + M" by simp
  from rel have paths: "map filePath extractedFiles =
      map fst (filter (\<lambda>(relativePath, zipEntry). \<not> dir zipEntry) loadedZip)"
    by (induction rule: list_all2_induct) auto
  from ex have planned: "map path (plannedCalls username repoName loadedZip) =
      map filePath extractedFiles"
    by (simp add: plannedCalls_def comp_def)
  from accepted_published [OF assms(1), of api r] obtain n where
    "published (snd (snd (handleDeployRequest loadAsync api request r))) =
       take n (plannedCalls username repoName loadedZip)" by blast
  then have "map path (published (snd (snd (handleDeployRequest loadAsync api request r)))) =
      take n (map path (plannedCalls username repoName loadedZip))"
    by (simp add: take_map)
  with planned paths
  have "map path (published (snd (snd (handleDeployRequest loadAsync api request r)))) =
      take n (map fst (filter (\<lambda>(relativePath, zipEntry). \<not> dir zipEntry) loadedZip))"
    by (simp only:)
  then have "prefix (map path (published (snd (snd (handleDeployRequest loadAsync api request r)))))
      (map fst (filter (\<lambda>(relativePath, zipEntry). \<not> dir zipEntry) loadedZip))"
    by (simp add: take_is_prefix)
  with ex len total rel show ?thesis by blast
qed

theorem archive_reader_file_entries_witness:
  "\<exists>extractedFiles.
     promiseAll (filePromises demoArchive) = Inr extractedFiles \<and>
     length extractedFiles = 2 \<and>
     length demoArchive = 2 + 1 \<and>
     list_all2 (\<lambda>f (relativePath, zipEntry).
         filePath f = relativePath \<and> async zipEntry = Inr (fileContent f))
       extractedFiles
       (filter (\<lambda>(relativePath, zipEntry). \<not> dir zipEntry) demoArchive) \<and>
     prefix (map path (published (snd (snd
         (handleDeployRequest (loadsAs demoArchive) recordingApi demoRequest [])))))
       (map fst (filter (\<lambda>(relativePath, zipEntry). \<not> dir zipEntry) demoArchive))"
proof -
  have v: "list_all (\<lambda>(relativePath, zipEntry). dir zipEntry \<or> \<not> isl (async zipEntry)) demoArchive"
    by (simp add: demoArchive_def)
  have n: "length (filter (\<lambda>(relativePath, zipEntry). \<not> dir zipEntry) demoArchive) = 2"
    by (simp add: demoArchive_def)
  have m: "length (filter (\<lambda>(relativePath, zipEntry). dir zipEntry) demoArchive) = 1"
    by (simp add: demoArchive_def)
  from archive_reader_file_entries [OF demo_accepted v n m, of recordingApi "[]"]
  show ?thesis .
qed

text \<open>Only an accepted upload leads to a call at all.\<close>

lemma deployTry_publishes_only_accepted:
  assumes "published (snd (snd (deployTry loadAsync api fields' files r))) \<noteq> []"
  shows "\<exists>username repoName zipFile others zipData loadedZip.
     sanitizeInput fields' ''username'' = Some username \<and> username \<noteq> [] \<and>
     sanitizeInput fields' ''repoName'' = Some repoName \<and> repoName \<noteq> [] \<and>
     files ''file'' = Some (zipFile # others) \<and> arrayBuffer zipFile = Inr zipData \<and>
     loadAsync zipData = Inr loadedZip"
proof (cases "sanitizeInput fields' ''username''")
  case None
  with assms show ?thesis by (simp add: deployTry_def)
next
  case u: (Some username)
  show ?thesis
  proof (cases "sanitizeInput fields' ''repoName''")
    case None
    with assms u show ?thesis by (simp add: deployTry_def)
  next
    case n: (Some repoName)
    from assms u n have ne: "username \<noteq> []" "repoName \<noteq> []"
      by (auto simp: deployTry_def)
    show ?thesis
    proof (cases "files ''file''")
      case None
      with assms u n ne show ?thesis by (simp add: deployTry_def)
    next
      case fl: (Some fs)
      show ?thesis
      proof (cases fs)
        case Nil
        with assms u n ne fl show ?thesis by (simp add: deployTry_def)
      next
        case (Cons zipFile others)
        show ?thesis
        proof (cases "arrayBuffer zipFile")
          case (Inl e)
          with assms u n ne fl Cons show ?thesis by (simp add: deployTry_def)
        next
          case ab: (Inr zipData)
          show ?thesis
          proof (cases "loadAsync zipData")
            case (Inl e)
            with assms u n ne fl Cons ab show ?thesis by (simp add: deployTry_def)
          next
            case (Inr loadedZip)
            with u n ne fl Cons ab show ?thesis by blast
          qed
        qed
      qed
    qed
  qed
qed

lemma publishes_only_accepted:
  assumes "published (snd (snd (handleDeployRequest loadAsync api request r))) \<noteq> []"
  shows "\<exists>username repoName zipData loadedZip.
     accepted loadAsync request username repoName zipData loadedZip"
proof -
  from assms have m: "httpMethod request = ''POST''"
    by (auto simp: handleDeployRequest_def split: if_splits)
  from assms m obtain fields' files where f: "form request = Inr (fields', files)"
    by (cases "form request") (auto simp: handleDeployRequest_def)
  have "snd (snd (handleDeployRequest loadAsync api request r)) =
      snd (snd (deployTry loadAsync api fields' files r))"
    using m f by (simp add: handleDeployRequest_def split: prod.splits sum.splits)
  with assms have "published (snd (snd (deployTry loadAsync api fields' files r))) \<noteq> []"
    by simp
  from deployTry_publishes_only_accepted [OF this] m f show ?thesis
    by (auto simp: accepted_def uploaded_def)
qed

text \<open>
  C6. In every run on an accepted upload the events are: the load of the archive, the
  decompression of every file entry, and only then the first \<open>n\<close> planned calls, in the
  order of the archive reader. Each call starts from the remote state the call before
  it left, and every call but the last one made has resolved. If a call is made at
  all, every file entry was extracted before. (A request that is not accepted makes
  no call: \<open>publishes_only_accepted\<close>.)
\<close>

theorem publishing_follows_extraction_in_order:
  assumes "accepted loadAsync request username repoName zipData loadedZip"
  shows "\<exists>n\<le>length (plannedCalls username repoName loadedZip).
     snd (handleDeployRequest loadAsync api request r) =
       (remoteAfter api r (take n (plannedCalls username repoName loadedZip)),
        LoadAsync zipData #
        map (\<lambda>(relativePath, zipEntry). Async relativePath) (fileEntries loadedZip) @
        map CreateOrUpdateFileContents (take n (plannedCalls username repoName loadedZip))) \<and>
     (\<forall>i. Suc i < n \<longrightarrow> callOutcome api r (plannedCalls username repoName loadedZip) i = None) \<and>
     (0 < n \<longrightarrow>
        (\<exists>extractedFiles. promiseAll (filePromises loadedZip) = Inr extractedFiles) \<and>
        map path (plannedCalls username repoName loadedZip) = map fst (fileEntries loadedZip))"
proof -
  let ?planned = "plannedCalls username repoName loadedZip"
  from accepted_run_shape [OF assms, of api r] obtain n where n: "n \<le> length ?planned"
    and s: "snd (handleDeployRequest loadAsync api request r) =
       (remoteAfter api r (take n ?planned),
        extractionTrace zipData loadedZip @ map CreateOrUpdateFileContents (take n ?planned))"
    and o: "\<forall>i. Suc i < n \<longrightarrow> callOutcome api r ?planned i = None"
    by blast
  have e: "0 < n \<longrightarrow>
        (\<exists>extractedFiles. promiseAll (filePromises loadedZip) = Inr extractedFiles) \<and>
        map path ?planned = map fst (fileEntries loadedZip)"
  proof
    assume "0 < n"
    with n have "?planned \<noteq> []" by auto
    then obtain extractedFiles where ex: "promiseAll (filePromises loadedZip) = Inr extractedFiles"
      by (cases "promiseAll (filePromises loadedZip)") (auto simp: plannedCalls_def)
    from extracted_entries [OF ex] have "map filePath extractedFiles = map fst (fileEntries loadedZip)"
      by (induction rule: list_all2_induct) auto
    with ex have "map path ?planned = map fst (fileEntries loadedZip)"
      by (simp add: plannedCalls_def comp_def)
    with ex show "(\<exists>extractedFiles. promiseAll (filePromises loadedZip) = Inr extractedFiles) \<and>
        map path ?planned = map fst (fileEntries loadedZip)" by blast
  qed
  from n s o e show ?thesis
    by (intro exI [of _ n]) (simp add: extractionTrace_def)
qed

lemma demo_planned:
  "plannedCalls ''alice'' ''demo'' demoArchive =
   [\<lparr>owner = ''alice'', repo = ''demo'', path = ''a.txt'',
       message = ''Menambahkan file a.txt via PaongDev'',
       content = ''aGVsbG8='',
       committer = \<lparr>name = ''PaongDev'', email = ''paongdev@example.com''\<rparr>,
       author = \<lparr>name = ''PaongDev'', email = ''paongdev@example.com''\<rparr>\<rparr>,
    \<lparr>owner = ''alice'', repo = ''demo'', path = ''dir/b.txt'',
       message = ''Menambahkan file dir/b.txt via PaongDev'',
       content = ''d29ybGQ='',
       committer = \<lparr>name = ''PaongDev'', email = ''paongdev@example.com''\<rparr>,
       author = \<lparr>name = ''PaongDev'', email = ''paongdev@example.com''\<rparr>\<rparr>]"
  by (simp only: plannedCalls_def demo_extracted sum.case demo_params)

theorem publishing_follows_extraction_in_order_witness:
  "\<exists>n\<le>length (plannedCalls ''alice'' ''demo'' demoArchive).
     snd (handleDeployRequest (loadsAs demoArchive) conflictApi demoRequest []) =
       (remoteAfter conflictApi [] (take n (plannedCalls ''alice'' ''demo'' demoArchive)),
        LoadAsync ''PK'' #
        map (\<lambda>(relativePath, zipEntry). Async relativePath) (fileEntries demoArchive) @
        map CreateOrUpdateFileContents (take n (plannedCalls ''alice'' ''demo'' demoArchive))) \<and>
     (\<forall>i. Suc i < n \<longrightarrow> callOutcome conflictApi [] (plannedCalls ''alice'' ''demo'' demoArchive) i = None) \<and>
     (0 < n \<longrightarrow>
        (\<exists>extractedFiles. promiseAll (filePromises demoArchive) = Inr extractedFiles) \<and>
        map path (plannedCalls ''alice'' ''demo'' demoArchive) = map fst (fileEntries demoArchive))"
  using publishing_follows_extraction_in_order [OF demo_accepted, of conflictApi "[]"] .

text \<open>
  C7. Every call made carries the owner and repository, the path of its extracted file,
  the message \<open>Menambahkan file <path> via PaongDev\<close>, the content in base64, and the
  fixed committer and author \<open>PaongDev <paongdev@example.com>\<close>; and when every call
  resolves, all are made and the handler answers 200 with \<open>Proyek berhasil di-deploy!\<close>.
\<close>

theorem publish_calls_carry_entry_and_identity:
  assumes "accepted loadAsync request username repoName zipData loadedZip"
    and "promiseAll (filePromises loadedZip) = Inr extractedFiles"
    and "calls =
      map (\<lambda>f.
        \<lparr>owner = username,
         repo = repoName,
         path = filePath f,
         message = ''Menambahkan file '' @ filePath f @ '' via PaongDev'',
         content = toBase64 (fileContent f),
         committer = \<lparr>name = ''PaongDev'', email = ''paongdev@example.com''\<rparr>,
         author = \<lparr>name = ''PaongDev'', email = ''paongdev@example.com''\<rparr>\<rparr>) extractedFiles"
  shows "prefix (published (snd (snd (handleDeployRequest loadAsync api request r)))) calls \<and>
    ((\<forall>i<length calls. callOutcome api r calls i = None) \<longrightarrow>
       handleDeployRequest loadAsync api request r =
         (Inr \<lparr>body = ''Proyek berhasil di-deploy!'', status = 200\<rparr>,
          remoteAfter api r calls,
          LoadAsync zipData #
          map (\<lambda>(relativePath, zipEntry). Async relativePath) (fileEntries loadedZip) @
          map CreateOrUpdateFileContents calls))"
proof -
  have calls: "calls = map (publishParamsOf username repoName) extractedFiles"
    unfolding assms(3) by (simp add: publishParamsOf_def)
  with assms(2) have planned: "plannedCalls username repoName loadedZip = calls"
    by (simp add: plannedCalls_def)
  from accepted_published [OF assms(1), of api r] planned
  have "prefix (published (snd (snd (handleDeployRequest loadAsync api request r)))) calls"
    by (auto simp: take_is_prefix)
  moreover have "handleDeployRequest loadAsync api request r =
         (Inr \<lparr>body = ''Proyek berhasil di-deploy!'', status = 200\<rparr>,
          remoteAfter api r calls,
          LoadAsync zipData #
          map (\<lambda>(relativePath, zipEntry). Async relativePath) (fileEntries loadedZip) @
          map CreateOrUpdateFileContents calls)"
    if "\<forall>i<length calls. callOutcome api r calls i = None"
  proof -
    from that calls have
      "\<forall>i<length extractedFiles.
         callOutcome api r (map (publishParamsOf username repoName) extractedFiles) i = None"
      by simp
    from publishLoop_all_resolve [OF this, of "extractionTrace zipData loadedZip"] calls
    show ?thesis
      unfolding accepted_run [OF assms(1,2)] by (simp add: extractionTrace_def)
  qed
  ultimately show ?thesis by blast
qed

theorem publish_calls_carry_entry_and_identity_witness:
  "handleDeployRequest (loadsAs demoArchive) recordingApi demoRequest [] =
     (Inr \<lparr>body = ''Proyek berhasil di-deploy!'', status = 200\<rparr>,
      [''a.txt'', ''dir/b.txt''],
      [LoadAsync ''PK'', Async ''a.txt'', Async ''dir/b.txt'',
       CreateOrUpdateFileContents
        \<lparr>owner = ''alice'', repo = ''demo'', path = ''a.txt'',
           message = ''Menambahkan file a.txt via PaongDev'',
           content = ''aGVsbG8='',
           committer = \<lparr>name = ''PaongDev'', email = ''paongdev@example.com''\<rparr>,
           author = \<lparr>name = ''PaongDev'', email = ''paongdev@example.com''\<rparr>\<rparr>,
       CreateOrUpdateFileContents
        \<lparr>owner = ''alice'', repo = ''demo'', path = ''dir/b.txt'',
           message = ''Menambahkan file dir/b.txt via PaongDev'',
           content = ''d29ybGQ='',
           committer = \<lparr>name = ''PaongDev'', email = ''paongdev@example.com''\<rparr>,
           author = \<lparr>name = ''PaongDev'', email = ''paongdev@example.com''\<rparr>\<rparr>])"
proof -
  let ?calls = "map (\<lambda>f.
        \<lparr>owner = ''alice'',
         repo = ''demo'',
         path = filePath f,
         message = ''Menambahkan file '' @ filePath f @ '' via PaongDev'',
         content = toBase64 (fileContent f),
         committer = \<lparr>name = ''PaongDev'', email = ''paongdev@example.com''\<rparr>,
         author = \<lparr>name = ''PaongDev'', email = ''paongdev@example.com''\<rparr>\<rparr>)
      [ExtractedFile ''a.txt'' ''hello'', ExtractedFile ''dir/b.txt'' ''world'']"
  have ok: "\<forall>i<length ?calls. callOutcome recordingApi [] ?calls i = None"
    by (simp add: callOutcome_def recordingApi_def)
  from publish_calls_carry_entry_and_identity
         [OF demo_accepted demo_extracted refl, of recordingApi "[]"] ok
  have "handleDeployRequest (loadsAs demoArchive) recordingApi demoRequest [] =
         (Inr \<lparr>body = ''Proyek berhasil di-deploy!'', status = 200\<rparr>,
          remoteAfter recordingApi [] ?calls,
          LoadAsync ''PK'' #
          map (\<lambda>(relativePath, zipEntry). Async relativePath) (fileEntries demoArchive) @
          map CreateOrUpdateFileContents ?calls)"
    by blast
  then show ?thesis
    unfolding demo_fileEntries
    by (simp add: recordingApi_def toBase64_def sextet_def base64Alphabet_def)
qed

text \<open>
  C10. An accepted archive with no file entry (empty, or directories only) leads to no
  call and no decompression of an entry: the answer is 200 with the fixed message and
  the remote state is untouched.
\<close>

theorem no_file_entries_no_calls:
  assumes "accepted loadAsync request username repoName zipData loadedZip"
    and "list_all (\<lambda>(relativePath, zipEntry). dir zipEntry) loadedZip"
  shows "handleDeployRequest loadAsync api request r =
     (Inr \<lparr>body = ''Proyek berhasil di-deploy!'', status = 200\<rparr>, r, [LoadAsync zipData])"
proof -
  from assms(2) have none: "filter (\<lambda>(relativePath, zipEntry). \<not> dir zipEntry) loadedZip = []"
    by (induction loadedZip) auto
  then have ex: "promiseAll (filePromises loadedZip) = Inr []"
    by (simp add: filePromises_def)
  from none show ?thesis
    unfolding accepted_run [OF assms(1) ex]
    by (simp add: extractionTrace_def fileEntries_def)
qed

lemma dirsOnly_accepted:
  "accepted (loadsAs dirsOnlyArchive) demoRequest ''alice'' ''demo'' ''PK'' dirsOnlyArchive"
  using demo_accepted by (simp add: accepted_def loadsAs_def)

theorem no_file_entries_no_calls_witness:
  "handleDeployRequest (loadsAs dirsOnlyArchive) conflictApi demoRequest [] =
     (Inr \<lparr>body = ''Proyek berhasil di-deploy!'', status = 200\<rparr>, [], [LoadAsync ''PK''])"
proof -
  have "list_all (\<lambda>(relativePath, zipEntry). dir zipEntry) dirsOnlyArchive"
    by (simp add: dirsOnlyArchive_def)
  from no_file_entries_no_calls [OF dirsOnly_accepted this] show ?thesis .
qed

lemma planned_entries:
  "list_all2 (\<lambda>params (relativePath, zipEntry).
       owner params = username \<and> repo params = repoName \<and> path params = relativePath \<and>
       (\<exists>str. async zipEntry = Inr str \<and> content params = toBase64 str \<and>
          fromBase64 (content params) = Some str))
     (plannedCalls username repoName loadedZip)
     (take (length (plannedCalls username repoName loadedZip)) (fileEntries loadedZip))"
proof (cases "promiseAll (filePromises loadedZip)")
  case (Inl e)
  then show ?thesis by (simp add: plannedCalls_def)
next
  case (Inr extractedFiles)
  from extracted_entries [OF Inr]
  have rel: "list_all2 (\<lambda>f (relativePath, zipEntry).
            filePath f = relativePath \<and> async zipEntry = Inr (fileContent f))
          extractedFiles (fileEntries loadedZip)" .
  then have len: "length extractedFiles = length (fileEntries loadedZip)"
    by (rule list_all2_lengthD)
  from rel have "list_all2 (\<lambda>params (relativePath, zipEntry).
       owner params = username \<and> repo params = repoName \<and> path params = relativePath \<and>
       (\<exists>str. async zipEntry = Inr str \<and> content params = toBase64 str \<and>
          fromBase64 (content params) = Some str))
     (map (publishParamsOf username repoName) extractedFiles) (fileEntries loadedZip)"
    by (induction rule: list_all2_induct) (auto simp: publishParamsOf_def fromBase64_toBase64)
  with Inr len show ?thesis by (simp add: plannedCalls_def)
qed

text \<open>
  C8. The calls made pair up, in order, with the first file entries of the archive: the
  path of a call is the entry's relative path as it stands, and its content is the
  base64 encoding of the entry's text as it stands (decoding it gives the text back);
  only the owner and the repository are the sanitized fields.
\<close>

theorem archive_entries_forwarded_unsanitized:
  assumes "accepted loadAsync request username repoName zipData loadedZip"
    and "calls = published (snd (snd (handleDeployRequest loadAsync api request r)))"
  shows "list_all2 (\<lambda>params (relativePath, zipEntry).
       owner params = username \<and> repo params = repoName \<and> path params = relativePath \<and>
       (\<exists>str. async zipEntry = Inr str \<and> content params = toBase64 str \<and>
          fromBase64 (content params) = Some str))
     calls (take (length calls) (fileEntries loadedZip))"
proof -
  let ?planned = "plannedCalls username repoName loadedZip"
  from accepted_published [OF assms(1), of api r] assms(2) obtain n where
    c: "calls = take n ?planned" by blast
  have "length ?planned \<le> length (fileEntries loadedZip)"
    using planned_entries [of username repoName loadedZip]
    by (auto dest: list_all2_lengthD)
  then have t: "take (length calls) (fileEntries loadedZip) =
      take n (take (length ?planned) (fileEntries loadedZip))"
    unfolding c by (simp add: min_def)
  show ?thesis
    unfolding t unfolding c
    by (rule list_all2_takeI) (rule planned_entries)
qed

lemma markup_accepted:
  "accepted (loadsAs markupArchive) demoRequest ''alice'' ''demo'' ''PK'' markupArchive"
  using demo_accepted by (simp add: accepted_def loadsAs_def)

lemma markup_extracted:
  "promiseAll (filePromises markupArchive) = Inr [ExtractedFile ''<b>x</b>.txt'' ''<i>hi</i>'']"
  by (simp add: filePromises_def markupArchive_def)

lemma markup_params:
  "map (publishParamsOf ''alice'' ''demo'') [ExtractedFile ''<b>x</b>.txt'' ''<i>hi</i>''] =
    [\<lparr>owner = ''alice'', repo = ''demo'', path = ''<b>x</b>.txt'',
       message = ''Menambahkan file <b>x</b>.txt via PaongDev'',
       content = ''PGk+aGk8L2k+'',
       committer = \<lparr>name = ''PaongDev'', email = ''paongdev@example.com''\<rparr>,
       author = \<lparr>name = ''PaongDev'', email = ''paongdev@example.com''\<rparr>\<rparr>]"
  by (simp add: publishParamsOf_def toBase64_def sextet_def base64Alphabet_def)

lemma markup_run:
  "handleDeployRequest (loadsAs markupArchive) recordingApi demoRequest [] =
     (Inr \<lparr>body = ''Proyek berhasil di-deploy!'', status = 200\<rparr>,
      [''<b>x</b>.txt''],
      [LoadAsync ''PK'', Async ''<b>x</b>.txt'',
       CreateOrUpdateFileContents
        \<lparr>owner = ''alice'', repo = ''demo'', path = ''<b>x</b>.txt'',
           message = ''Menambahkan file <b>x</b>.txt via PaongDev'',
           content = ''PGk+aGk8L2k+'',
           committer = \<lparr>name = ''PaongDev'', email = ''paongdev@example.com''\<rparr>,
           author = \<lparr>name = ''PaongDev'', email = ''paongdev@example.com''\<rparr>\<rparr>])"
proof -
  have "publishLoop recordingApi ''alice'' ''demo'' [ExtractedFile ''<b>x</b>.txt'' ''<i>hi</i>''] []
      (extractionTrace ''PK'' markupArchive) =
    (None, remoteAfter recordingApi []
        (map (publishParamsOf ''alice'' ''demo'') [ExtractedFile ''<b>x</b>.txt'' ''<i>hi</i>'']),
     extractionTrace ''PK'' markupArchive @
     map CreateOrUpdateFileContents
        (map (publishParamsOf ''alice'' ''demo'') [ExtractedFile ''<b>x</b>.txt'' ''<i>hi</i>'']))"
    by (rule publishLoop_all_resolve) (simp add: callOutcome_def recordingApi_def)
  then show ?thesis
    unfolding accepted_run [OF markup_accepted markup_extracted] markup_params
    by (simp add: extractionTrace_def fileEntries_def markupArchive_def recordingApi_def)
qed

theorem archive_entries_forwarded_unsanitized_witness:
  "list_all2 (\<lambda>params (relativePath, zipEntry).
       owner params = ''alice'' \<and> repo params = ''demo'' \<and> path params = relativePath \<and>
       (\<exists>str. async zipEntry = Inr str \<and> content params = toBase64 str \<and>
          fromBase64 (content params) = Some str))
     [\<lparr>owner = ''alice'', repo = ''demo'', path = ''<b>x</b>.txt'',
        message = ''Menambahkan file <b>x</b>.txt via PaongDev'',
        content = ''PGk+aGk8L2k+'',
        committer = \<lparr>name = ''PaongDev'', email = ''paongdev@example.com''\<rparr>,
        author = \<lparr>name = ''PaongDev'', email = ''paongdev@example.com''\<rparr>\<rparr>]
     [(''<b>x</b>.txt'', \<lparr>dir = False, async = Inr ''<i>hi</i>''\<rparr>)]"
proof -
  have c: "[\<lparr>owner = ''alice'', repo = ''demo'', path = ''<b>x</b>.txt'',
        message = ''Menambahkan file <b>x</b>.txt via PaongDev'',
        content = ''PGk+aGk8L2k+'',
        committer = \<lparr>name = ''PaongDev'', email = ''paongdev@example.com''\<rparr>,
        author = \<lparr>name = ''PaongDev'', email = ''paongdev@example.com''\<rparr>\<rparr>] =
     published (snd (snd (handleDeployRequest (loadsAs markupArchive) recordingApi demoRequest [])))"
    unfolding markup_run by simp
  from archive_entries_forwarded_unsanitized [OF markup_accepted c]
  show ?thesis by (simp add: fileEntries_def markupArchive_def fromBase64_toBase64)
qed

lemma incomplete_names_rejected:
  assumes "httpMethod request = ''POST''" and "form request = Inr (fields', files)"
    and "sanitizeInput fields' ''username'' = None \<or> sanitizeInput fields' ''username'' = Some [] \<or>
         sanitizeInput fields' ''repoName'' = None \<or> sanitizeInput fields' ''repoName'' = Some []"
  shows "handleDeployRequest loadAsync api request r =
     (Inr \<lparr>body = ''Data tidak lengkap.'', status = 400\<rparr>, r, [])"
proof -
  from assms(3) have "deployTry loadAsync api fields' files r = (Inr dataTidakLengkap, r, [])"
    by (cases "sanitizeInput fields' ''username''"; cases "sanitizeInput fields' ''repoName''")
       (auto simp: deployTry_def Let_def)
  with assms(1,2) show ?thesis
    by (simp add: handleDeployRequest_def dataTidakLengkap_def)
qed

lemma empty_file_list_rejected:
  assumes "httpMethod request = ''POST''" and "form request = Inr (fields', files)"
    and "files ''file'' = Some []"
  shows "handleDeployRequest loadAsync api request r =
     (Inr \<lparr>body = ''Data tidak lengkap.'', status = 400\<rparr>, r, [])"
proof -
  from assms(3) have "deployTry loadAsync api fields' files r = (Inr dataTidakLengkap, r, [])"
    by (cases "sanitizeInput fields' ''username''"; cases "sanitizeInput fields' ''repoName''")
       (auto simp: deployTry_def Let_def)
  with assms(1,2) show ?thesis
    by (simp add: handleDeployRequest_def dataTidakLengkap_def)
qed

text \<open>
  C4. A POST with both names but no \<open>file\<close> property among the parsed files: the guard
  \<open>!files['file'][0]\<close> throws instead of rejecting, and the \<open>catch\<close> answers 500. (With
  a name missing or empty, or with an empty \<open>file\<close> array, the answer is 400 and nothing
  else happens: \<open>incomplete_names_rejected\<close>, \<open>empty_file_list_rejected\<close>.)
\<close>

theorem missing_file_answers_500:
  "handleDeployRequest loadAsync api
     \<lparr>httpMethod = ''POST'',
      form = Inr ([''username'' \<mapsto> JArr [''alice''], ''repoName'' \<mapsto> JArr [''demo'']],
                  Map.empty)\<rparr> r =
   (Inr \<lparr>body = ''Kesalahan deployment: Cannot read properties of undefined (reading '0')'',
          status = 500\<rparr>, r, [])"
  by (simp add: handleDeployRequest_def deployTry_def undefinedIndexError_def sanitizeInput_def
      matchTag_closed_form)

text \<open>
  C5, as the handler has it. When the archive does not load, the handler answers 500
  with \<open>Kesalahan deployment:\<close> and the loader's message, and makes no call: the only
  event is the attempt to load.
\<close>

theorem invalid_archive_answers_500:
  assumes "uploaded request username repoName zipData"
    and "loadAsync zipData = Inl e"
  shows "handleDeployRequest loadAsync api request r =
     (Inr \<lparr>body = ''Kesalahan deployment: '' @ errorMessage e, status = 500\<rparr>, r,
      [LoadAsync zipData])"
  unfolding uploaded_run [OF assms(1)] using assms(2) by simp

lemma demo_uploaded: "uploaded demoRequest ''alice'' ''demo'' ''PK''"
  using demo_accepted by (simp add: accepted_def)

theorem invalid_archive_answers_500_witness:
  "handleDeployRequest (failsWith (Error ''Corrupted zip: missing 4 bytes.'')) recordingApi demoRequest [] =
     (Inr \<lparr>body = ''Kesalahan deployment: Corrupted zip: missing 4 bytes.'', status = 500\<rparr>, [],
      [LoadAsync ''PK''])"
proof -
  have "failsWith (Error ''Corrupted zip: missing 4 bytes.'') ''PK'' =
      Inl (Error ''Corrupted zip: missing 4 bytes.'')"
    by (simp add: failsWith_def)
  from invalid_archive_answers_500
         [where loadAsync = "failsWith (Error ''Corrupted zip: missing 4 bytes.'')",
          OF demo_uploaded this]
  show ?thesis by simp
qed

text \<open>
  C5, as stated, fails: the answer to an archive that does not load is not a client
  error.
\<close>

theorem invalid_archive_client_error_counterexample:
  "\<not> (case fst (handleDeployRequest (failsWith (Error ''Corrupted zip: missing 4 bytes.''))
                  recordingApi demoRequest []) of
        Inl e \<Rightarrow> False
      | Inr resp \<Rightarrow> clientError resp)"
  by (simp add: uploaded_run [OF demo_uploaded] failsWith_def clientError_def)

end
